theory Spec2Isabelle
  imports Main
begin

section \<open>The menu item tree of \<^verbatim>\<open>v2/pkg/menu/menuitem.go\<close>\<close>

text \<open>
  The Go code builds a tree of \<^verbatim>\<open>MenuItem\<close> structs that point at each other: a
  node holds a slice of pointers to its children and a pointer to its parent. The
  operations mutate nodes through these pointers, and the properties of interest
  (the parent back-reference, lookup of a sibling by identity) depend on which
  pointers are equal. The embedding therefore keeps an explicit store.

  \<^item> A pointer \<^verbatim>\<open>*MenuItem\<close> is \<open>nat option\<close>: \<open>None\<close> is \<^verbatim>\<open>nil\<close>, \<open>Some a\<close> is
    the address \<open>a\<close>.
  \<^item> The store is the list of all structs allocated so far; the struct at address
    \<open>a\<close> is \<open>h ! a\<close>. Go never frees, so allocation appends to the list.
  \<^item> Every operation takes the store and returns the new one beside its result.
  \<^item> A run-time panic (a field access through \<^verbatim>\<open>nil\<close>, a slice expression with a
    negative bound) is the value \<open>Inl\<close> of the result.
  \<^item> The two recursive walks follow pointers, so on a cyclic store they do not
    return (Go aborts when the stack is exhausted). They take the number of nested
    calls still allowed as first argument; \<open>Inl OutOfFuel\<close> is "did not return".
  \<^item> A slice \<^verbatim>\<open>[]*MenuItem\<close> is the list of its elements. Backing arrays and
    capacities are not part of the model: the slices of different nodes are taken
    not to overlap in memory. Inside one function the in-place \<^verbatim>\<open>append\<close> and the
    value computed here agree, since \<^verbatim>\<open>append\<close> copies like \<^verbatim>\<open>memmove\<close>.
  \<^item> Go's \<^verbatim>\<open>int\<close> indices are \<open>int\<close>: an index is at most a slice length plus
    one, far from the 64-bit bound.
\<close>

subsection \<open>Data\<close>

text \<open>
  Modelled from the spec: the declaration of \<^verbatim>\<open>Type\<close> and of its constants
  (\<^verbatim>\<open>TextType\<close>, \<^verbatim>\<open>SeparatorType\<close>, \<^verbatim>\<open>SubmenuType\<close>, \<^verbatim>\<open>CheckboxType\<close>, \<^verbatim>\<open>RadioType\<close>) is
  in another file of the package. The spec gives the kind as one of Text, Separator,
  Checkbox, Radio, Submenu.
\<close>

datatype Type = TextType | SeparatorType | SubmenuType | CheckboxType | RadioType

text \<open>
  Modelled from the spec: \<^verbatim>\<open>Role\<close> and \<^verbatim>\<open>Accelerator\<close> are declared in other files
  of the package. The spec calls the role an enumerated tag and the accelerator an
  optional opaque descriptor; no operation here reads either. The role is an
  integer tag whose zero value is \<open>0\<close>, the accelerator an optional opaque handle.
\<close>

type_synonym Role = int

type_synonym Accelerator = nat

type_synonym ptr = "nat option"

record MenuItem =
  ID :: string
  Label :: string
  Role :: Role
  Accelerator :: "Accelerator option"
  Type :: Type
  Disabled :: bool
  Hidden :: bool
  Checked :: bool
  SubMenu :: "ptr list"
  parent :: ptr

type_synonym heap = "MenuItem list"

datatype error = NilDereference | SliceBounds | OutOfFuel

subsection \<open>Access through pointers\<close>

text \<open>Reading a struct through a pointer: \<^verbatim>\<open>nil\<close> panics.\<close>

fun load :: "heap \<Rightarrow> ptr \<Rightarrow> error + MenuItem" where
  "load h None = Inl NilDereference"
| "load h (Some a) = (if a < length h then Inr (h ! a) else Inl NilDereference)"

text \<open>Assigning to a field through a pointer: \<open>f\<close> is the field update.\<close>

fun store :: "heap \<Rightarrow> ptr \<Rightarrow> (MenuItem \<Rightarrow> MenuItem) \<Rightarrow> error + heap" where
  "store h None f = Inl NilDereference"
| "store h (Some a) f = (if a < length h then Inr (h[a := f (h ! a)]) else Inl NilDereference)"

subsection \<open>Operations\<close>

definition Parent :: "heap \<Rightarrow> ptr \<Rightarrow> error + ptr" where
  "Parent h m = (case load h m of Inl e \<Rightarrow> Inl e | Inr mm \<Rightarrow> Inr (parent mm))"

definition isSubMenu :: "heap \<Rightarrow> ptr \<Rightarrow> error + bool" where
  "isSubMenu h m = (case load h m of Inl e \<Rightarrow> Inl e | Inr mm \<Rightarrow> Inr (Type mm = SubmenuType))"

definition Append :: "heap \<Rightarrow> ptr \<Rightarrow> ptr \<Rightarrow> error + bool \<times> heap" where
  "Append h m item =
     (case isSubMenu h m of Inl e \<Rightarrow> Inl e
      | Inr b \<Rightarrow>
          if \<not> b then Inr (False, h)
          else (case store h item (\<lambda>it. it\<lparr>parent := m\<rparr>) of Inl e \<Rightarrow> Inl e
            | Inr h1 \<Rightarrow>
                (case store h1 m (\<lambda>mm. mm\<lparr>SubMenu := SubMenu mm @ [item]\<rparr>) of Inl e \<Rightarrow> Inl e
                 | Inr h2 \<Rightarrow> Inr (True, h2))))"

definition Prepend :: "heap \<Rightarrow> ptr \<Rightarrow> ptr \<Rightarrow> error + bool \<times> heap" where
  "Prepend h m item =
     (case isSubMenu h m of Inl e \<Rightarrow> Inl e
      | Inr b \<Rightarrow>
          if \<not> b then Inr (False, h)
          else (case store h item (\<lambda>it. it\<lparr>parent := m\<rparr>) of Inl e \<Rightarrow> Inl e
            | Inr h1 \<Rightarrow>
                (case store h1 m (\<lambda>mm. mm\<lparr>SubMenu := [item] @ SubMenu mm\<rparr>) of Inl e \<Rightarrow> Inl e
                 | Inr h2 \<Rightarrow> Inr (True, h2))))"

text \<open>
  \<^verbatim>\<open>getByID\<close>: the second function is the \<^verbatim>\<open>for ... range m.SubMenu\<close> loop over the
  children still to visit. The first argument bounds the depth of nested calls.
\<close>

fun getByID :: "nat \<Rightarrow> heap \<Rightarrow> ptr \<Rightarrow> string \<Rightarrow> error + ptr"
  and getByID_range :: "nat \<Rightarrow> heap \<Rightarrow> ptr list \<Rightarrow> string \<Rightarrow> error + ptr" where
  "getByID 0 h m sid = Inl OutOfFuel"
| "getByID (Suc n) h m sid =
     (case load h m of Inl e \<Rightarrow> Inl e
      | Inr mm \<Rightarrow> if ID mm = sid then Inr m else getByID_range n h (SubMenu mm) sid)"
| "getByID_range n h [] sid = Inr None"
| "getByID_range n h (submenu # rest) sid =
     (case getByID n h submenu sid of Inl e \<Rightarrow> Inl e
      | Inr result \<Rightarrow> if result \<noteq> None then Inr result else getByID_range n h rest sid)"

text \<open>
  \<^verbatim>\<open>removeByID\<close>: the loop runs over the children read when it starts, with the
  index of the next one. A nested call that returns \<^verbatim>\<open>false\<close> has changed nothing,
  so the elements the Go loop reads afterwards are the ones listed here.
\<close>

fun removeByID :: "nat \<Rightarrow> heap \<Rightarrow> ptr \<Rightarrow> string \<Rightarrow> error + bool \<times> heap"
  and removeByID_range ::
    "nat \<Rightarrow> heap \<Rightarrow> ptr \<Rightarrow> nat \<Rightarrow> ptr list \<Rightarrow> string \<Rightarrow> error + bool \<times> heap" where
  "removeByID 0 h m sid = Inl OutOfFuel"
| "removeByID (Suc n) h m sid =
     (case load h m of Inl e \<Rightarrow> Inl e
      | Inr mm \<Rightarrow> removeByID_range n h m 0 (SubMenu mm) sid)"
| "removeByID_range n h m index [] sid = Inr (False, h)"
| "removeByID_range n h m index (item # rest) sid =
     (case load h item of Inl e \<Rightarrow> Inl e
      | Inr it \<Rightarrow>
          if ID it = sid then
            (case store h m (\<lambda>mm. mm\<lparr>SubMenu :=
                     take index (SubMenu mm) @ drop (index + 1) (SubMenu mm)\<rparr>) of
               Inl e \<Rightarrow> Inl e
             | Inr h1 \<Rightarrow> Inr (True, h1))
          else if Type it = SubmenuType then
            (case removeByID n h item sid of Inl e \<Rightarrow> Inl e
             | Inr (result, h1) \<Rightarrow>
                 if result then Inr (result, h1)
                 else removeByID_range n h1 m (index + 1) rest sid)
          else removeByID_range n h m (index + 1) rest sid)"

text \<open>The loop of \<^verbatim>\<open>getItemIndex\<close>; pointers are compared, not ids.\<close>

fun getItemIndex_range :: "int \<Rightarrow> ptr list \<Rightarrow> ptr \<Rightarrow> int" where
  "getItemIndex_range index [] target = - 1"
| "getItemIndex_range index (item # rest) target =
     (if item = target then index else getItemIndex_range (index + 1) rest target)"

definition getItemIndex :: "heap \<Rightarrow> ptr \<Rightarrow> ptr \<Rightarrow> error + int" where
  "getItemIndex h m target =
     (case isSubMenu h m of Inl e \<Rightarrow> Inl e
      | Inr b \<Rightarrow>
          if \<not> b then Inr (- 1)
          else (case load h m of Inl e \<Rightarrow> Inl e
            | Inr mm \<Rightarrow> Inr (getItemIndex_range 0 (SubMenu mm) target)))"

text \<open>
  \<^verbatim>\<open>insertItemAtIndex\<close>. The slice expressions \<^verbatim>\<open>m.SubMenu[:index+1]\<close> and
  \<^verbatim>\<open>m.SubMenu[index:]\<close> panic for a negative index; the upper bounds hold since
  \<open>index < len\<close> there.
\<close>

definition insertItemAtIndex :: "heap \<Rightarrow> ptr \<Rightarrow> int \<Rightarrow> ptr \<Rightarrow> error + bool \<times> heap" where
  "insertItemAtIndex h m index target =
     (case load h m of Inl e \<Rightarrow> Inl e
      | Inr mm \<Rightarrow>
          if index > int (length (SubMenu mm)) then Inr (False, h)
          else (case store h target (\<lambda>t. t\<lparr>parent := m\<rparr>) of Inl e \<Rightarrow> Inl e
            | Inr h1 \<Rightarrow>
                (case load h1 m of Inl e \<Rightarrow> Inl e
                 | Inr mm1 \<Rightarrow>
                     if index = int (length (SubMenu mm1)) then
                       (case store h1 m (\<lambda>mm. mm\<lparr>SubMenu := SubMenu mm @ [target]\<rparr>) of
                          Inl e \<Rightarrow> Inl e
                        | Inr h2 \<Rightarrow> Inr (True, h2))
                     else if index < 0 then Inl SliceBounds
                     else
                       (case store h1 m (\<lambda>mm. mm\<lparr>SubMenu :=
                                take (nat (index + 1)) (SubMenu mm) @ drop (nat index) (SubMenu mm)\<rparr>) of
                          Inl e \<Rightarrow> Inl e
                        | Inr h2 \<Rightarrow>
                            (case store h2 m (\<lambda>mm. mm\<lparr>SubMenu := (SubMenu mm)[nat index := target]\<rparr>) of
                               Inl e \<Rightarrow> Inl e
                             | Inr h3 \<Rightarrow> Inr (True, h3))))))"

definition insertNewItemAfterGivenItem :: "heap \<Rightarrow> ptr \<Rightarrow> ptr \<Rightarrow> ptr \<Rightarrow> error + bool \<times> heap" where
  "insertNewItemAfterGivenItem h m target newItem =
     (case isSubMenu h m of Inl e \<Rightarrow> Inl e
      | Inr b \<Rightarrow>
          if \<not> b then Inr (False, h)
          else (case getItemIndex h m target of Inl e \<Rightarrow> Inl e
            | Inr targetIndex \<Rightarrow>
                if targetIndex = - 1 then Inr (False, h)
                else insertItemAtIndex h m (targetIndex + 1) newItem))"

definition insertNewItemBeforeGivenItem :: "heap \<Rightarrow> ptr \<Rightarrow> ptr \<Rightarrow> ptr \<Rightarrow> error + bool \<times> heap" where
  "insertNewItemBeforeGivenItem h m target newItem =
     (case isSubMenu h m of Inl e \<Rightarrow> Inl e
      | Inr b \<Rightarrow>
          if \<not> b then Inr (False, h)
          else (case getItemIndex h m target of Inl e \<Rightarrow> Inl e
            | Inr targetIndex \<Rightarrow>
                if targetIndex = - 1 then Inr (False, h)
                else insertItemAtIndex h m targetIndex newItem))"

definition InsertAfter :: "heap \<Rightarrow> ptr \<Rightarrow> ptr \<Rightarrow> error + bool \<times> heap" where
  "InsertAfter h m item =
     (case load h m of Inl e \<Rightarrow> Inl e
      | Inr mm \<Rightarrow>
          if parent mm = None then Inr (False, h)
          else insertNewItemAfterGivenItem h (parent mm) m item)"

definition InsertBefore :: "heap \<Rightarrow> ptr \<Rightarrow> ptr \<Rightarrow> error + bool \<times> heap" where
  "InsertBefore h m item =
     (case load h m of Inl e \<Rightarrow> Inl e
      | Inr mm \<Rightarrow>
          if parent mm = None then Inr (False, h)
          else insertNewItemBeforeGivenItem h (parent mm) m item)"

text \<open>
  The constructors allocate the new struct at the next free address, with the
  zero value in every field the literal leaves out, and then run the loop that
  sets the parent of each supplied item.
\<close>

fun fixup_parents :: "heap \<Rightarrow> ptr \<Rightarrow> ptr list \<Rightarrow> error + heap" where
  "fixup_parents h result [] = Inr h"
| "fixup_parents h result (item # rest) =
     (case store h item (\<lambda>it. it\<lparr>parent := result\<rparr>) of Inl e \<Rightarrow> Inl e
      | Inr h1 \<Rightarrow> fixup_parents h1 result rest)"

definition SubMenu_new :: "heap \<Rightarrow> string \<Rightarrow> ptr list \<Rightarrow> error + ptr \<times> heap" where
  "SubMenu_new h label items =
     (let result = Some (length h);
          h0 = h @ [\<lparr>ID = [], Label = label, Role = 0, Accelerator = None,
                     Type = SubmenuType, Disabled = False, Hidden = False, Checked = False,
                     SubMenu = items, parent = None\<rparr>]
      in case fixup_parents h0 result items of Inl e \<Rightarrow> Inl e
         | Inr h1 \<Rightarrow> Inr (result, h1))"

definition SubMenuWithID :: "heap \<Rightarrow> string \<Rightarrow> string \<Rightarrow> ptr list \<Rightarrow> error + ptr \<times> heap" where
  "SubMenuWithID h label sid items =
     (let result = Some (length h);
          h0 = h @ [\<lparr>ID = sid, Label = label, Role = 0, Accelerator = None,
                     Type = SubmenuType, Disabled = False, Hidden = False, Checked = False,
                     SubMenu = items, parent = None\<rparr>]
      in case fixup_parents h0 result items of Inl e \<Rightarrow> Inl e
         | Inr h1 \<Rightarrow> Inr (result, h1))"

subsection \<open>Trees in the store\<close>

text \<open>
  A tree names the addresses a walk from a node meets: \<open>shape h t\<close> holds when the
  node at the root address of \<open>t\<close> is allocated and its children slice holds, in
  order, the (non-nil) addresses of the roots of the subtrees, which have the
  shape of their own. A finite tree has no cycle.
\<close>

datatype tree = Node nat "tree list"

fun root :: "tree \<Rightarrow> nat" where
  "root (Node a ts) = a"

fun shape :: "heap \<Rightarrow> tree \<Rightarrow> bool" where
  "shape h (Node a ts) =
     (a < length h \<and> SubMenu (h ! a) = map (\<lambda>t. Some (root t)) ts \<and> (\<forall>t \<in> set ts. shape h t))"

text \<open>Pre-order: a node, then its subtrees left to right, each in pre-order.\<close>

fun preorder :: "tree \<Rightarrow> nat list" where
  "preorder (Node a ts) = a # concat (map preorder ts)"

fun descendants :: "tree \<Rightarrow> nat list" where
  "descendants (Node a ts) = concat (map preorder ts)"

text \<open>The number of nested calls a walk over the tree makes.\<close>

fun height :: "tree \<Rightarrow> nat" where
  "height (Node a ts) = Suc (foldr max (map height ts) 0)"

subsection \<open>The invariants of the spec\<close>

text \<open>The nodes whose children slice holds the address \<open>a\<close>.\<close>

definition holders :: "heap \<Rightarrow> nat \<Rightarrow> nat list" where
  "holders h a = filter (\<lambda>p. Some a \<in> set (SubMenu (h ! p))) [0..<length h]"

text \<open>
  I1 at one node: a root (no children slice holds it) has no parent; any other
  node has as parent the node whose children slice holds it.
\<close>

definition I1_at :: "heap \<Rightarrow> nat \<Rightarrow> bool" where
  "I1_at h a =
     (if holders h a = [] then parent (h ! a) = None
      else \<forall>p \<in> set (holders h a). parent (h ! a) = Some p)"

definition I1 :: "heap \<Rightarrow> bool" where
  "I1 h = (\<forall>a \<in> set [0..<length h]. I1_at h a)"

text \<open>I2: a node occurs at most once in all the children slices together.\<close>

definition occurrences :: "heap \<Rightarrow> nat \<Rightarrow> ptr list" where
  "occurrences h a = concat (map (\<lambda>p. filter (\<lambda>c. c = Some a) (SubMenu (h ! p))) [0..<length h])"

definition I2 :: "heap \<Rightarrow> bool" where
  "I2 h = (\<forall>a \<in> set [0..<length h]. length (occurrences h a) \<le> 1)"

text \<open>I3: only a node of Submenu kind has children.\<close>

definition I3 :: "heap \<Rightarrow> bool" where
  "I3 h = (\<forall>a \<in> set [0..<length h]. Type (h ! a) \<noteq> SubmenuType \<longrightarrow> SubMenu (h ! a) = [])"

subsection \<open>Removal of one child\<close>

text \<open>
  The store after the child at index \<open>i\<close> of node \<open>p\<close> is taken out of the children
  of \<open>p\<close> and the gap is closed: the children before and after index \<open>i\<close> keep
  their order, and nothing else changes.
\<close>

definition remove_child_at :: "heap \<Rightarrow> nat \<Rightarrow> nat \<Rightarrow> heap" where
  "remove_child_at h p i =
     h[p := (h ! p)\<lparr>SubMenu := take i (SubMenu (h ! p)) @ drop (Suc i) (SubMenu (h ! p))\<rparr>]"

subsection \<open>Example stores\<close>

definition menu_item :: "string \<Rightarrow> Type \<Rightarrow> ptr list \<Rightarrow> ptr \<Rightarrow> MenuItem" where
  "menu_item sid k cs p =
     \<lparr>ID = sid, Label = [], Role = 0, Accelerator = None, Type = k, Disabled = False,
      Hidden = False, Checked = False, SubMenu = cs, parent = p\<rparr>"

text \<open>
  The scenario of the spec: \<open>A(Submenu) \<rightarrow> [B(Text, b1), C(Submenu) \<rightarrow> [D(Text, d1)]]\<close>
  at the addresses 0 to 3, and a detached item \<open>E\<close> at address 4.
\<close>

definition scenario :: heap where
  "scenario =
     [menu_item ''a'' SubmenuType [Some 1, Some 2] None,
      menu_item ''b1'' TextType [] (Some 0),
      menu_item ''c'' SubmenuType [Some 3] (Some 0),
      menu_item ''d1'' TextType [] (Some 2),
      menu_item ''e'' TextType [] None]"

definition scenario_tree :: tree where
  "scenario_tree = Node 0 [Node 1 [], Node 2 [Node 3 []]]"

text \<open>
  A store that breaks I3 by assigning the field directly: the Text item at
  address 1 has a child.
\<close>

definition text_with_child :: heap where
  "text_with_child =
     [menu_item ''a'' SubmenuType [Some 1] None,
      menu_item ''t'' TextType [Some 2] (Some 0),
      menu_item ''d1'' TextType [] (Some 1)]"

section \<open>Properties\<close>

subsection \<open>Append and Prepend\<close>

text \<open>
  Claim C5. For a node \<open>m\<close> of Submenu kind and an item \<open>x\<close>, \<^verbatim>\<open>m.Append(x)\<close> returns
  true, afterwards \<^verbatim>\<open>x.Parent()\<close> is \<open>m\<close> and the children of \<open>m\<close> are the former
  children, in their order, followed by \<open>x\<close>; no other node changes. For a node
  \<open>m\<close> of another kind it returns false and the store is the one before.
\<close>

theorem Append_spec:
  assumes "a < length h" and "b < length h"
  shows "(Type (h ! a) = SubmenuType \<longrightarrow>
           (\<exists>h'. Append h (Some a) (Some b) = Inr (True, h') \<and> length h' = length h \<and>
                 Parent h' (Some b) = Inr (Some a) \<and>
                 SubMenu (h' ! a) = SubMenu (h ! a) @ [Some b] \<and>
                 (\<forall>c < length h. c \<noteq> a \<and> c \<noteq> b \<longrightarrow> h' ! c = h ! c))) \<and>
         (Type (h ! a) \<noteq> SubmenuType \<longrightarrow> Append h (Some a) (Some b) = Inr (False, h))"
  using assms by (auto simp: Append_def isSubMenu_def Parent_def nth_list_update)

theorem Append_spec_witness:
  "(0::nat) < length scenario \<and> (4::nat) < length scenario \<and> (1::nat) < length scenario \<and>
   Type (scenario ! 0) = SubmenuType \<and>
   (\<exists>h'. Append scenario (Some 0) (Some 4) = Inr (True, h') \<and>
         Parent h' (Some 4) = Inr (Some 0) \<and> SubMenu (h' ! 0) = [Some 1, Some 2, Some 4]) \<and>
   Type (scenario ! 1) \<noteq> SubmenuType \<and>
   Append scenario (Some 1) (Some 4) = Inr (False, scenario)"
proof -
  have len: "(0::nat) < length scenario" "(4::nat) < length scenario" "(1::nat) < length scenario"
    by (simp_all add: scenario_def)
  have kinds: "Type (scenario ! 0) = SubmenuType" "Type (scenario ! 1) \<noteq> SubmenuType"
    and cs: "SubMenu (scenario ! 0) = [Some 1, Some 2]"
    by (simp_all add: scenario_def menu_item_def)
  from Append_spec [OF len(1) len(2)] kinds(1) cs
  obtain h' where "Append scenario (Some 0) (Some 4) = Inr (True, h')"
    and "Parent h' (Some 4) = Inr (Some 0)" and "SubMenu (h' ! 0) = [Some 1, Some 2, Some 4]"
    by auto
  moreover from Append_spec [OF len(3) len(2)] kinds(2)
  have "Append scenario (Some 1) (Some 4) = Inr (False, scenario)" by simp
  ultimately show ?thesis using len kinds by blast
qed

text \<open>
  Claim C6. For a node \<open>m\<close> of Submenu kind and an item \<open>x\<close>, \<^verbatim>\<open>m.Prepend(x)\<close>
  returns true, afterwards \<^verbatim>\<open>x.Parent()\<close> is \<open>m\<close> and the children of \<open>m\<close> are \<open>x\<close>
  followed by the former children in their order; no other node changes. For a
  node \<open>m\<close> of another kind it returns false and the store is the one before.
\<close>

theorem Prepend_spec:
  assumes "a < length h" and "b < length h"
  shows "(Type (h ! a) = SubmenuType \<longrightarrow>
           (\<exists>h'. Prepend h (Some a) (Some b) = Inr (True, h') \<and> length h' = length h \<and>
                 Parent h' (Some b) = Inr (Some a) \<and>
                 SubMenu (h' ! a) = Some b # SubMenu (h ! a) \<and>
                 (\<forall>c < length h. c \<noteq> a \<and> c \<noteq> b \<longrightarrow> h' ! c = h ! c))) \<and>
         (Type (h ! a) \<noteq> SubmenuType \<longrightarrow> Prepend h (Some a) (Some b) = Inr (False, h))"
  using assms by (auto simp: Prepend_def isSubMenu_def Parent_def nth_list_update)

theorem Prepend_spec_witness:
  "(0::nat) < length scenario \<and> (4::nat) < length scenario \<and> (1::nat) < length scenario \<and>
   Type (scenario ! 0) = SubmenuType \<and>
   (\<exists>h'. Prepend scenario (Some 0) (Some 4) = Inr (True, h') \<and>
         Parent h' (Some 4) = Inr (Some 0) \<and> SubMenu (h' ! 0) = [Some 4, Some 1, Some 2]) \<and>
   Type (scenario ! 1) \<noteq> SubmenuType \<and>
   Prepend scenario (Some 1) (Some 4) = Inr (False, scenario)"
proof -
  have len: "(0::nat) < length scenario" "(4::nat) < length scenario" "(1::nat) < length scenario"
    by (simp_all add: scenario_def)
  have kinds: "Type (scenario ! 0) = SubmenuType" "Type (scenario ! 1) \<noteq> SubmenuType"
    and cs: "SubMenu (scenario ! 0) = [Some 1, Some 2]"
    by (simp_all add: scenario_def menu_item_def)
  from Prepend_spec [OF len(1) len(2)] kinds(1) cs
  obtain h' where "Prepend scenario (Some 0) (Some 4) = Inr (True, h')"
    and "Parent h' (Some 4) = Inr (Some 0)" and "SubMenu (h' ! 0) = [Some 4, Some 1, Some 2]"
    by auto
  moreover from Prepend_spec [OF len(3) len(2)] kinds(2)
  have "Prepend scenario (Some 1) (Some 4) = Inr (False, scenario)" by simp
  ultimately show ?thesis using len kinds by blast
qed

subsection \<open>Insertion at an index\<close>

text \<open>
  The slice expression of \<^verbatim>\<open>insertItemAtIndex\<close> duplicates the element at the
  index and the assignment overwrites the first copy: the item is inserted.
\<close>

lemma insert_by_shift:
  "i < length cs \<Longrightarrow> (take (Suc i) cs @ drop i cs)[i := x] = take i cs @ x # drop i cs"
  by (simp add: take_Suc_conv_app_nth list_update_append)

lemma insertItemAtIndex_ok:
  assumes "p < length h" and "c < length h" and "i \<le> length (SubMenu (h ! p))"
  shows "\<exists>h'. insertItemAtIndex h (Some p) (int i) (Some c) = Inr (True, h') \<and>
            length h' = length h \<and> parent (h' ! c) = Some p \<and>
            SubMenu (h' ! p) = take i (SubMenu (h ! p)) @ Some c # drop i (SubMenu (h ! p)) \<and>
            (\<forall>d < length h. d \<noteq> p \<and> d \<noteq> c \<longrightarrow> h' ! d = h ! d) \<and>
            (c \<noteq> p \<longrightarrow> h' ! c = (h ! c)\<lparr>parent := Some p\<rparr>) \<and>
            (c \<noteq> p \<longrightarrow> h' ! p = (h ! p)\<lparr>SubMenu := take i (SubMenu (h ! p)) @ Some c # drop i (SubMenu (h ! p))\<rparr>)"
proof (cases "i = length (SubMenu (h ! p))")
  case True
  with assms show ?thesis
    by (auto simp: insertItemAtIndex_def nth_list_update)
next
  case False
  with assms have lt: "i < length (SubMenu (h ! p))" by simp
  have n1: "nat (int i + 1) = Suc i" by simp
  from assms lt show ?thesis
    by (auto simp: insertItemAtIndex_def nth_list_update n1 insert_by_shift)
qed

text \<open>
  Claim C9. For a Submenu node \<open>m\<close> with \<open>n\<close> children, \<^verbatim>\<open>insertItemAtIndex\<close> with
  index \<open>n\<close> puts the item at the end and returns true; with any index greater
  than \<open>n\<close> it returns false and the store, so the children of \<open>m\<close> and the item
  with its parent field, is the one before.
\<close>

theorem insertItemAtIndex_bounds:
  assumes "p < length h" and "c < length h" and "Type (h ! p) = SubmenuType"
  shows "(\<exists>h'. insertItemAtIndex h (Some p) (int (length (SubMenu (h ! p)))) (Some c) = Inr (True, h') \<and>
               length h' = length h \<and>
               SubMenu (h' ! p) = SubMenu (h ! p) @ [Some c] \<and> parent (h' ! c) = Some p) \<and>
         (\<forall>i. i > int (length (SubMenu (h ! p))) \<longrightarrow>
               insertItemAtIndex h (Some p) i (Some c) = Inr (False, h))"
proof -
  have "\<forall>i. i > int (length (SubMenu (h ! p))) \<longrightarrow>
               insertItemAtIndex h (Some p) i (Some c) = Inr (False, h)"
    using assms by (simp add: insertItemAtIndex_def)
  moreover have "\<exists>h'. insertItemAtIndex h (Some p) (int (length (SubMenu (h ! p)))) (Some c) = Inr (True, h') \<and>
               length h' = length h \<and>
               SubMenu (h' ! p) = SubMenu (h ! p) @ [Some c] \<and> parent (h' ! c) = Some p"
    using insertItemAtIndex_ok [OF assms(1) assms(2), of "length (SubMenu (h ! p))"] by auto
  ultimately show ?thesis by blast
qed

theorem insertItemAtIndex_bounds_witness:
  "(0::nat) < length scenario \<and> (4::nat) < length scenario \<and> Type (scenario ! 0) = SubmenuType \<and>
   length (SubMenu (scenario ! 0)) = 2 \<and>
   (\<exists>h'. insertItemAtIndex scenario (Some 0) 2 (Some 4) = Inr (True, h') \<and>
         SubMenu (h' ! 0) = [Some 1, Some 2, Some 4] \<and> parent (h' ! 4) = Some 0) \<and>
   insertItemAtIndex scenario (Some 0) 3 (Some 4) = Inr (False, scenario)"
proof -
  have len: "(0::nat) < length scenario" "(4::nat) < length scenario"
    by (simp_all add: scenario_def)
  have kind: "Type (scenario ! 0) = SubmenuType"
    and cs: "SubMenu (scenario ! 0) = [Some 1, Some 2]"
    by (simp_all add: scenario_def menu_item_def)
  from insertItemAtIndex_bounds [OF len kind] cs
  have "\<exists>h'. insertItemAtIndex scenario (Some 0) 2 (Some 4) = Inr (True, h') \<and>
         SubMenu (h' ! 0) = [Some 1, Some 2, Some 4] \<and> parent (h' ! 4) = Some 0"
    and "insertItemAtIndex scenario (Some 0) 3 (Some 4) = Inr (False, scenario)"
    by auto
  then show ?thesis using len kind cs by simp
qed

subsection \<open>InsertAfter and InsertBefore\<close>

text \<open>The loop of \<^verbatim>\<open>getItemIndex\<close> returns the first index that holds the pointer.\<close>

lemma getItemIndex_range_first:
  "i < length cs \<Longrightarrow> cs ! i = t \<Longrightarrow> (\<forall>j < i. cs ! j \<noteq> t) \<Longrightarrow>
   getItemIndex_range k cs t = k + int i"
proof (induction cs arbitrary: i k)
  case Nil
  then show ?case by simp
next
  case (Cons c cs)
  show ?case
  proof (cases i)
    case 0
    with Cons.prems show ?thesis by simp
  next
    case (Suc i')
    with Cons.prems have "c \<noteq> t" by auto
    moreover from Suc Cons.prems have "getItemIndex_range (k + 1) cs t = (k + 1) + int i'"
      by (intro Cons.IH) auto
    ultimately show ?thesis using Suc by simp
  qed
qed

text \<open>
  Claim C3. Let the parent \<open>p\<close> of a node \<open>t\<close> be a node of Submenu kind whose
  children hold the pointer \<open>t\<close> at index \<open>i\<close> (the index \<^verbatim>\<open>getItemIndex\<close> finds, the
  first one). Then \<^verbatim>\<open>t.InsertAfter(x)\<close> returns true, the parent of \<open>x\<close> becomes
  \<open>p\<close>, and the children of \<open>p\<close> are the former ones with \<open>x\<close> put in at index
  \<open>i + 1\<close>; no other node changes. For a root \<open>t\<close> the call returns false and the
  store is the one before.
\<close>

theorem InsertAfter_spec:
  assumes "b < length h" and "c < length h"
  shows "(\<forall>p i. parent (h ! b) = Some p \<and> p < length h \<and> Type (h ! p) = SubmenuType \<and>
               i < length (SubMenu (h ! p)) \<and> SubMenu (h ! p) ! i = Some b \<and>
               (\<forall>j < i. SubMenu (h ! p) ! j \<noteq> Some b) \<longrightarrow>
           (\<exists>h'. InsertAfter h (Some b) (Some c) = Inr (True, h') \<and> length h' = length h \<and>
                 Parent h' (Some c) = Inr (Some p) \<and>
                 SubMenu (h' ! p) =
                   take (Suc i) (SubMenu (h ! p)) @ Some c # drop (Suc i) (SubMenu (h ! p)) \<and>
                 SubMenu (h' ! p) ! (Suc i) = Some c \<and>
                 (\<forall>d < length h. d \<noteq> p \<and> d \<noteq> c \<longrightarrow> h' ! d = h ! d))) \<and>
         (parent (h ! b) = None \<longrightarrow> InsertAfter h (Some b) (Some c) = Inr (False, h))"
proof (intro conjI allI impI)
  fix p i
  assume H: "parent (h ! b) = Some p \<and> p < length h \<and> Type (h ! p) = SubmenuType \<and>
               i < length (SubMenu (h ! p)) \<and> SubMenu (h ! p) ! i = Some b \<and>
               (\<forall>j < i. SubMenu (h ! p) ! j \<noteq> Some b)"
  then have idx: "getItemIndex_range 0 (SubMenu (h ! p)) (Some b) = int i"
    using getItemIndex_range_first [of i "SubMenu (h ! p)" "Some b" 0] by simp
  have "InsertAfter h (Some b) (Some c) = insertItemAtIndex h (Some p) (int i + 1) (Some c)"
    using assms H idx
    by (simp add: InsertAfter_def insertNewItemAfterGivenItem_def getItemIndex_def isSubMenu_def)
  moreover have "int i + 1 = int (Suc i)" by simp
  ultimately have call:
    "InsertAfter h (Some b) (Some c) = insertItemAtIndex h (Some p) (int (Suc i)) (Some c)"
    by (simp only:)
  from H have "Suc i \<le> length (SubMenu (h ! p))" by simp
  from insertItemAtIndex_ok [OF _ assms(2) this] H
  obtain h' where r: "insertItemAtIndex h (Some p) (int (Suc i)) (Some c) = Inr (True, h')"
    "length h' = length h" "parent (h' ! c) = Some p"
    "SubMenu (h' ! p) = take (Suc i) (SubMenu (h ! p)) @ Some c # drop (Suc i) (SubMenu (h ! p))"
    "\<forall>d < length h. d \<noteq> p \<and> d \<noteq> c \<longrightarrow> h' ! d = h ! d"
    by blast
  have "SubMenu (h' ! p) ! (Suc i) = Some c"
    using r(4) H by (simp add: nth_append)
  then show "\<exists>h'. InsertAfter h (Some b) (Some c) = Inr (True, h') \<and> length h' = length h \<and>
                 Parent h' (Some c) = Inr (Some p) \<and>
                 SubMenu (h' ! p) =
                   take (Suc i) (SubMenu (h ! p)) @ Some c # drop (Suc i) (SubMenu (h ! p)) \<and>
                 SubMenu (h' ! p) ! (Suc i) = Some c \<and>
                 (\<forall>d < length h. d \<noteq> p \<and> d \<noteq> c \<longrightarrow> h' ! d = h ! d)"
    using call r assms by (auto simp: Parent_def)
next
  assume "parent (h ! b) = None"
  then show "InsertAfter h (Some b) (Some c) = Inr (False, h)"
    using assms by (simp add: InsertAfter_def)
qed

text \<open>
  Claim C4. Under the same conditions \<^verbatim>\<open>t.InsertBefore(x)\<close> returns true, the
  parent of \<open>x\<close> becomes \<open>p\<close>, \<open>x\<close> stands at index \<open>i\<close> of the children of \<open>p\<close>, and
  \<open>t\<close> and every sibling after it stand one position later; no other node changes.
  For a root \<open>t\<close> the call returns false and the store is the one before.
\<close>

theorem InsertBefore_spec:
  assumes "b < length h" and "c < length h"
  shows "(\<forall>p i. parent (h ! b) = Some p \<and> p < length h \<and> Type (h ! p) = SubmenuType \<and>
               i < length (SubMenu (h ! p)) \<and> SubMenu (h ! p) ! i = Some b \<and>
               (\<forall>j < i. SubMenu (h ! p) ! j \<noteq> Some b) \<longrightarrow>
           (\<exists>h'. InsertBefore h (Some b) (Some c) = Inr (True, h') \<and> length h' = length h \<and>
                 Parent h' (Some c) = Inr (Some p) \<and>
                 SubMenu (h' ! p) =
                   take i (SubMenu (h ! p)) @ Some c # drop i (SubMenu (h ! p)) \<and>
                 SubMenu (h' ! p) ! i = Some c \<and> SubMenu (h' ! p) ! (Suc i) = Some b \<and>
                 (\<forall>j. i \<le> j \<and> j < length (SubMenu (h ! p)) \<longrightarrow>
                        SubMenu (h' ! p) ! (Suc j) = SubMenu (h ! p) ! j) \<and>
                 (\<forall>d < length h. d \<noteq> p \<and> d \<noteq> c \<longrightarrow> h' ! d = h ! d))) \<and>
         (parent (h ! b) = None \<longrightarrow> InsertBefore h (Some b) (Some c) = Inr (False, h))"
proof (intro conjI allI impI)
  fix p i
  assume H: "parent (h ! b) = Some p \<and> p < length h \<and> Type (h ! p) = SubmenuType \<and>
               i < length (SubMenu (h ! p)) \<and> SubMenu (h ! p) ! i = Some b \<and>
               (\<forall>j < i. SubMenu (h ! p) ! j \<noteq> Some b)"
  then have idx: "getItemIndex_range 0 (SubMenu (h ! p)) (Some b) = int i"
    using getItemIndex_range_first [of i "SubMenu (h ! p)" "Some b" 0] by simp
  have call: "InsertBefore h (Some b) (Some c) = insertItemAtIndex h (Some p) (int i) (Some c)"
    using assms H idx
    by (simp add: InsertBefore_def insertNewItemBeforeGivenItem_def getItemIndex_def isSubMenu_def)
  from H have "i \<le> length (SubMenu (h ! p))" by simp
  from insertItemAtIndex_ok [OF _ assms(2) this] H
  obtain h' where r: "insertItemAtIndex h (Some p) (int i) (Some c) = Inr (True, h')"
    "length h' = length h" "parent (h' ! c) = Some p"
    "SubMenu (h' ! p) = take i (SubMenu (h ! p)) @ Some c # drop i (SubMenu (h ! p))"
    "\<forall>d < length h. d \<noteq> p \<and> d \<noteq> c \<longrightarrow> h' ! d = h ! d"
    by blast
  have at: "SubMenu (h' ! p) ! i = Some c"
    using r(4) H by (simp add: nth_append)
  have shifted: "\<forall>j. i \<le> j \<and> j < length (SubMenu (h ! p)) \<longrightarrow>
                        SubMenu (h' ! p) ! (Suc j) = SubMenu (h ! p) ! j"
    using r(4) H by (auto simp: nth_append Suc_diff_le)
  with H have "SubMenu (h' ! p) ! (Suc i) = Some b" by auto
  with at shifted
  show "\<exists>h'. InsertBefore h (Some b) (Some c) = Inr (True, h') \<and> length h' = length h \<and>
                 Parent h' (Some c) = Inr (Some p) \<and>
                 SubMenu (h' ! p) =
                   take i (SubMenu (h ! p)) @ Some c # drop i (SubMenu (h ! p)) \<and>
                 SubMenu (h' ! p) ! i = Some c \<and> SubMenu (h' ! p) ! (Suc i) = Some b \<and>
                 (\<forall>j. i \<le> j \<and> j < length (SubMenu (h ! p)) \<longrightarrow>
                        SubMenu (h' ! p) ! (Suc j) = SubMenu (h ! p) ! j) \<and>
                 (\<forall>d < length h. d \<noteq> p \<and> d \<noteq> c \<longrightarrow> h' ! d = h ! d)"
    using call r assms by (auto simp: Parent_def)
next
  assume "parent (h ! b) = None"
  then show "InsertBefore h (Some b) (Some c) = Inr (False, h)"
    using assms by (simp add: InsertBefore_def)
qed

theorem InsertAfter_spec_witness:
  "(2::nat) < length scenario \<and> (4::nat) < length scenario \<and> (0::nat) < length scenario \<and>
   parent (scenario ! 2) = Some 0 \<and> Type (scenario ! 0) = SubmenuType \<and>
   (1::nat) < length (SubMenu (scenario ! 0)) \<and> SubMenu (scenario ! 0) ! 1 = Some 2 \<and>
   (\<forall>j < (1::nat). SubMenu (scenario ! 0) ! j \<noteq> Some 2) \<and>
   (\<exists>h'. InsertAfter scenario (Some 2) (Some 4) = Inr (True, h') \<and>
         Parent h' (Some 4) = Inr (Some 0) \<and> SubMenu (h' ! 0) = [Some 1, Some 2, Some 4]) \<and>
   parent (scenario ! 0) = None \<and>
   InsertAfter scenario (Some 0) (Some 4) = Inr (False, scenario)"
proof -
  have len: "(2::nat) < length scenario" "(4::nat) < length scenario" "(0::nat) < length scenario"
    by (simp_all add: scenario_def)
  have facts: "parent (scenario ! 2) = Some 0" "Type (scenario ! 0) = SubmenuType"
    "(1::nat) < length (SubMenu (scenario ! 0))" "SubMenu (scenario ! 0) ! 1 = Some 2"
    "\<forall>j < (1::nat). SubMenu (scenario ! 0) ! j \<noteq> Some 2"
    "parent (scenario ! 0) = None"
    and cs: "SubMenu (scenario ! 0) = [Some 1, Some 2]"
    by (simp_all add: scenario_def menu_item_def)
  have pre: "parent (scenario ! 2) = Some 0 \<and> 0 < length scenario \<and>
      Type (scenario ! 0) = SubmenuType \<and> 1 < length (SubMenu (scenario ! 0)) \<and>
      SubMenu (scenario ! 0) ! 1 = Some 2 \<and> (\<forall>j < (1::nat). SubMenu (scenario ! 0) ! j \<noteq> Some 2)"
    using len facts by simp
  from InsertAfter_spec [OF len(1) len(2), THEN conjunct1, rule_format, OF pre]
  have "\<exists>h'. InsertAfter scenario (Some 2) (Some 4) = Inr (True, h') \<and>
         Parent h' (Some 4) = Inr (Some 0) \<and>
         SubMenu (h' ! 0) = take (Suc 1) (SubMenu (scenario ! 0)) @ Some 4 # drop (Suc 1) (SubMenu (scenario ! 0))"
    by blast
  then have "\<exists>h'. InsertAfter scenario (Some 2) (Some 4) = Inr (True, h') \<and>
         Parent h' (Some 4) = Inr (Some 0) \<and> SubMenu (h' ! 0) = [Some 1, Some 2, Some 4]"
    by (simp add: cs)
  moreover from InsertAfter_spec [OF len(3) len(2), THEN conjunct2, rule_format, OF facts(6)]
  have "InsertAfter scenario (Some 0) (Some 4) = Inr (False, scenario)" .
  ultimately show ?thesis using len facts by simp
qed

theorem InsertBefore_spec_witness:
  "(2::nat) < length scenario \<and> (4::nat) < length scenario \<and> (0::nat) < length scenario \<and>
   parent (scenario ! 2) = Some 0 \<and> Type (scenario ! 0) = SubmenuType \<and>
   (1::nat) < length (SubMenu (scenario ! 0)) \<and> SubMenu (scenario ! 0) ! 1 = Some 2 \<and>
   (\<forall>j < (1::nat). SubMenu (scenario ! 0) ! j \<noteq> Some 2) \<and>
   (\<exists>h'. InsertBefore scenario (Some 2) (Some 4) = Inr (True, h') \<and>
         Parent h' (Some 4) = Inr (Some 0) \<and> SubMenu (h' ! 0) = [Some 1, Some 4, Some 2]) \<and>
   parent (scenario ! 0) = None \<and>
   InsertBefore scenario (Some 0) (Some 4) = Inr (False, scenario)"
proof -
  have len: "(2::nat) < length scenario" "(4::nat) < length scenario" "(0::nat) < length scenario"
    by (simp_all add: scenario_def)
  have facts: "parent (scenario ! 2) = Some 0" "Type (scenario ! 0) = SubmenuType"
    "(1::nat) < length (SubMenu (scenario ! 0))" "SubMenu (scenario ! 0) ! 1 = Some 2"
    "\<forall>j < (1::nat). SubMenu (scenario ! 0) ! j \<noteq> Some 2"
    "parent (scenario ! 0) = None"
    and cs: "SubMenu (scenario ! 0) = [Some 1, Some 2]"
    by (simp_all add: scenario_def menu_item_def)
  have pre: "parent (scenario ! 2) = Some 0 \<and> 0 < length scenario \<and>
      Type (scenario ! 0) = SubmenuType \<and> 1 < length (SubMenu (scenario ! 0)) \<and>
      SubMenu (scenario ! 0) ! 1 = Some 2 \<and> (\<forall>j < (1::nat). SubMenu (scenario ! 0) ! j \<noteq> Some 2)"
    using len facts by simp
  from InsertBefore_spec [OF len(1) len(2), THEN conjunct1, rule_format, OF pre]
  have "\<exists>h'. InsertBefore scenario (Some 2) (Some 4) = Inr (True, h') \<and>
         Parent h' (Some 4) = Inr (Some 0) \<and>
         SubMenu (h' ! 0) = take 1 (SubMenu (scenario ! 0)) @ Some 4 # drop 1 (SubMenu (scenario ! 0))"
    by blast
  then have "\<exists>h'. InsertBefore scenario (Some 2) (Some 4) = Inr (True, h') \<and>
         Parent h' (Some 4) = Inr (Some 0) \<and> SubMenu (h' ! 0) = [Some 1, Some 4, Some 2]"
    by (simp add: cs)
  moreover from InsertBefore_spec [OF len(3) len(2), THEN conjunct2, rule_format, OF facts(6)]
  have "InsertBefore scenario (Some 0) (Some 4) = Inr (False, scenario)" .
  ultimately show ?thesis using len facts by simp
qed

subsection \<open>Constructors\<close>

text \<open>The loop over the supplied items sets the parent of each and of no other node.\<close>

lemma fixup_parents_ok:
  "\<forall>it \<in> set items. \<exists>a < length h. it = Some a \<Longrightarrow>
   \<exists>h'. fixup_parents h r items = Inr h' \<and> length h' = length h \<and>
        (\<forall>a < length h. h' ! a = (if Some a \<in> set items then (h ! a)\<lparr>parent := r\<rparr> else h ! a))"
proof (induction items arbitrary: h)
  case Nil
  then show ?case by simp
next
  case (Cons it items)
  then obtain a where a: "it = Some a" "a < length h" by auto
  let ?h1 = "h[a := (h ! a)\<lparr>parent := r\<rparr>]"
  have "\<forall>it \<in> set items. \<exists>a < length ?h1. it = Some a" using Cons.prems by simp
  from Cons.IH [OF this] obtain h' where h': "fixup_parents ?h1 r items = Inr h'"
    "length h' = length ?h1"
    "\<forall>b < length ?h1. h' ! b = (if Some b \<in> set items then (?h1 ! b)\<lparr>parent := r\<rparr> else ?h1 ! b)"
    by blast
  have "fixup_parents h r (it # items) = Inr h'" using a h' by simp
  moreover have "length h' = length h" using h' by simp
  moreover have "\<forall>b < length h. h' ! b =
      (if Some b \<in> set (it # items) then (h ! b)\<lparr>parent := r\<rparr> else h ! b)"
    using h'(3) a by (auto simp: nth_list_update)
  ultimately show ?case by blast
qed

text \<open>
  Claim C8. For every label, id and list of items (pointers to allocated nodes),
  \<^verbatim>\<open>SubMenu\<close> and \<^verbatim>\<open>SubMenuWithID\<close> return a new node of Submenu kind whose
  children are the supplied items in order, and \<^verbatim>\<open>Parent()\<close> of every supplied item
  is the new node when the constructor returns.
\<close>

theorem SubMenu_constructors:
  assumes "\<forall>it \<in> set items. \<exists>a < length h. it = Some a"
  shows "(\<exists>h'. SubMenu_new h label items = Inr (Some (length h), h') \<and>
               length h' = Suc (length h) \<and>
               Type (h' ! length h) = SubmenuType \<and> Label (h' ! length h) = label \<and>
               SubMenu (h' ! length h) = items \<and>
               (\<forall>it \<in> set items. Parent h' it = Inr (Some (length h))) \<and>
               (\<forall>a < length h. Some a \<notin> set items \<longrightarrow> h' ! a = h ! a)) \<and>
         (\<exists>h'. SubMenuWithID h label sid items = Inr (Some (length h), h') \<and>
               length h' = Suc (length h) \<and>
               Type (h' ! length h) = SubmenuType \<and> Label (h' ! length h) = label \<and>
               ID (h' ! length h) = sid \<and>
               SubMenu (h' ! length h) = items \<and>
               (\<forall>it \<in> set items. Parent h' it = Inr (Some (length h))) \<and>
               (\<forall>a < length h. Some a \<notin> set items \<longrightarrow> h' ! a = h ! a))"
proof -
  have new: "\<exists>h'. fixup_parents (h @ [n]) (Some (length h)) items = Inr h' \<and>
          length h' = Suc (length h) \<and> h' ! length h = n \<and>
          (\<forall>it \<in> set items. Parent h' it = Inr (Some (length h))) \<and>
          (\<forall>a < length h. Some a \<notin> set items \<longrightarrow> h' ! a = h ! a)" for n
  proof -
    have "\<forall>it \<in> set items. \<exists>a < length (h @ [n]). it = Some a"
      using assms by (auto intro: less_SucI)
    from fixup_parents_ok [OF this, of "Some (length h)"]
    obtain h' where h': "fixup_parents (h @ [n]) (Some (length h)) items = Inr h'"
      "length h' = length (h @ [n])"
      "\<forall>a < length (h @ [n]). h' ! a =
         (if Some a \<in> set items then ((h @ [n]) ! a)\<lparr>parent := Some (length h)\<rparr> else (h @ [n]) ! a)"
      by blast
    have fresh: "Some (length h) \<notin> set items" using assms by auto
    have "h' ! length h = n" using h'(3) fresh by simp
    moreover have "\<forall>it \<in> set items. Parent h' it = Inr (Some (length h))"
    proof
      fix it assume "it \<in> set items"
      with assms obtain a where "it = Some a" "a < length h" by auto
      with h' \<open>it \<in> set items\<close> show "Parent h' it = Inr (Some (length h))"
        by (simp add: Parent_def)
    qed
    moreover have "\<forall>a < length h. Some a \<notin> set items \<longrightarrow> h' ! a = h ! a"
      using h'(3) by (simp add: nth_append)
    ultimately show ?thesis using h' by auto
  qed
  have "\<exists>h'. SubMenu_new h label items = Inr (Some (length h), h') \<and>
               length h' = Suc (length h) \<and>
               Type (h' ! length h) = SubmenuType \<and> Label (h' ! length h) = label \<and>
               SubMenu (h' ! length h) = items \<and>
               (\<forall>it \<in> set items. Parent h' it = Inr (Some (length h))) \<and>
               (\<forall>a < length h. Some a \<notin> set items \<longrightarrow> h' ! a = h ! a)"
    using new [of "\<lparr>ID = [], Label = label, Role = 0, Accelerator = None,
                     Type = SubmenuType, Disabled = False, Hidden = False, Checked = False,
                     SubMenu = items, parent = None\<rparr>"]
    by (auto simp: SubMenu_new_def Let_def)
  moreover have "\<exists>h'. SubMenuWithID h label sid items = Inr (Some (length h), h') \<and>
               length h' = Suc (length h) \<and>
               Type (h' ! length h) = SubmenuType \<and> Label (h' ! length h) = label \<and>
               ID (h' ! length h) = sid \<and>
               SubMenu (h' ! length h) = items \<and>
               (\<forall>it \<in> set items. Parent h' it = Inr (Some (length h))) \<and>
               (\<forall>a < length h. Some a \<notin> set items \<longrightarrow> h' ! a = h ! a)"
    using new [of "\<lparr>ID = sid, Label = label, Role = 0, Accelerator = None,
                     Type = SubmenuType, Disabled = False, Hidden = False, Checked = False,
                     SubMenu = items, parent = None\<rparr>"]
    by (auto simp: SubMenuWithID_def Let_def)
  ultimately show ?thesis by blast
qed

theorem SubMenu_constructors_witness:
  "(\<forall>it \<in> set [Some 4, Some 1]. \<exists>a < length scenario. it = Some a) \<and>
   (\<exists>h'. SubMenu_new scenario ''File'' [Some 4, Some 1] = Inr (Some 5, h') \<and>
         Type (h' ! 5) = SubmenuType \<and> SubMenu (h' ! 5) = [Some 4, Some 1] \<and>
         Parent h' (Some 4) = Inr (Some 5) \<and> Parent h' (Some 1) = Inr (Some 5)) \<and>
   (\<exists>h'. SubMenuWithID scenario ''File'' ''f'' [Some 4, Some 1] = Inr (Some 5, h') \<and>
         Type (h' ! 5) = SubmenuType \<and> ID (h' ! 5) = ''f'' \<and> SubMenu (h' ! 5) = [Some 4, Some 1] \<and>
         Parent h' (Some 4) = Inr (Some 5) \<and> Parent h' (Some 1) = Inr (Some 5))"
proof -
  have len: "length scenario = 5" by (simp add: scenario_def)
  have pre: "\<forall>it \<in> set [Some 4, Some 1]. \<exists>a < length scenario. it = Some a"
    by (simp add: len)
  note both = SubMenu_constructors [OF pre, of "''File''" "''f''"]
  from both [THEN conjunct1]
  have "\<exists>h'. SubMenu_new scenario ''File'' [Some 4, Some 1] = Inr (Some 5, h') \<and>
         Type (h' ! 5) = SubmenuType \<and> SubMenu (h' ! 5) = [Some 4, Some 1] \<and>
         Parent h' (Some 4) = Inr (Some 5) \<and> Parent h' (Some 1) = Inr (Some 5)"
    by (auto simp: len)
  moreover from both [THEN conjunct2]
  have "\<exists>h'. SubMenuWithID scenario ''File'' ''f'' [Some 4, Some 1] = Inr (Some 5, h') \<and>
         Type (h' ! 5) = SubmenuType \<and> ID (h' ! 5) = ''f'' \<and> SubMenu (h' ! 5) = [Some 4, Some 1] \<and>
         Parent h' (Some 4) = Inr (Some 5) \<and> Parent h' (Some 1) = Inr (Some 5)"
    by (auto simp: len)
  ultimately show ?thesis using pre by blast
qed

subsection \<open>getByID\<close>

lemma find_append_list:
  "find P (xs @ ys) = (case find P xs of None \<Rightarrow> find P ys | Some x \<Rightarrow> Some x)"
  by (induction xs) auto

lemma height_le_foldr_max:
  "t \<in> set ts \<Longrightarrow> height t \<le> foldr max (map height ts) 0"
  by (induction ts) (auto simp: max_def)

lemma subtree_height: "t \<in> set ts \<Longrightarrow> height (Node a ts) \<le> Suc n \<Longrightarrow> height t \<le> n"
  using height_le_foldr_max [of t ts] by simp

text \<open>
  The loop over the children returns the first match of the subtrees in pre-order,
  given that each nested call does so for its subtree.
\<close>

lemma getByID_range_find:
  assumes call: "\<And>t. t \<in> set ts \<Longrightarrow>
      getByID n h (Some (root t)) s = Inr (find (\<lambda>a. ID (h ! a) = s) (preorder t))"
  shows "getByID_range n h (map (\<lambda>t. Some (root t)) ts) s =
         Inr (find (\<lambda>a. ID (h ! a) = s) (concat (map preorder ts)))"
  using call
proof (induction ts)
  case Nil
  then show ?case by simp
next
  case (Cons t ts)
  then show ?case
    by (cases "find (\<lambda>a. ID (h ! a) = s) (preorder t)") (simp_all add: find_append_list)
qed

lemma getByID_find:
  "shape h t \<Longrightarrow> height t \<le> n \<Longrightarrow>
   getByID n h (Some (root t)) s = Inr (find (\<lambda>a. ID (h ! a) = s) (preorder t))"
proof (induction n arbitrary: t)
  case 0
  then show ?case by (cases t) simp
next
  case (Suc n)
  obtain a ts where t: "t = Node a ts" by (cases t)
  have sub: "getByID n h (Some (root u)) s = Inr (find (\<lambda>a. ID (h ! a) = s) (preorder u))"
    if "u \<in> set ts" for u
    using that Suc.prems t subtree_height [of u ts a n] by (intro Suc.IH) auto
  from Suc.prems t have a: "a < length h" "SubMenu (h ! a) = map (\<lambda>t. Some (root t)) ts"
    by auto
  show ?case
    using a getByID_range_find [of ts n h s, OF sub] by (simp add: t)
qed

text \<open>
  Claim C7. On a tree, \<^verbatim>\<open>m.getByID(s)\<close> returns the first node in pre-order (the
  receiver, then the children left to right, each with its subtree) whose id is
  \<open>s\<close>: with exactly one such node in the tree it returns that node, with none it
  returns nil. The Go function assigns to no field, so the model returns no store.
  The call returns once the allowed nesting reaches the height of the tree.
\<close>

theorem getByID_preorder:
  assumes "shape h t" and "height t \<le> n"
  shows "getByID n h (Some (root t)) s = Inr (find (\<lambda>a. ID (h ! a) = s) (preorder t)) \<and>
         (\<forall>b. b \<in> set (preorder t) \<and> (\<forall>a \<in> set (preorder t). (ID (h ! a) = s) = (a = b)) \<longrightarrow>
              getByID n h (Some (root t)) s = Inr (Some b)) \<and>
         ((\<forall>a \<in> set (preorder t). ID (h ! a) \<noteq> s) \<longrightarrow>
              getByID n h (Some (root t)) s = Inr None)"
proof -
  let ?P = "\<lambda>a. ID (h ! a) = s"
  have r: "getByID n h (Some (root t)) s = Inr (find ?P (preorder t))"
    using assms by (rule getByID_find)
  have one: "find ?P (preorder t) = Some b"
    if "b \<in> set (preorder t)" and "\<forall>a \<in> set (preorder t). ?P a = (a = b)" for b
  proof (cases "find ?P (preorder t)")
    case None
    with that show ?thesis by (auto simp: find_None_iff)
  next
    case (Some c)
    then have "?P c \<and> c \<in> set (preorder t)" by (auto simp: find_Some_iff)
    with that Some show ?thesis by auto
  qed
  have none: "find ?P (preorder t) = None" if "\<forall>a \<in> set (preorder t). \<not> ?P a"
    using that by (simp add: find_None_iff)
  show ?thesis using r one none by auto
qed

theorem getByID_preorder_witness:
  "shape scenario scenario_tree \<and> height scenario_tree \<le> 3 \<and>
   preorder scenario_tree = [0, 1, 2, 3] \<and>
   (3 \<in> set (preorder scenario_tree) \<and>
    (\<forall>a \<in> set (preorder scenario_tree). (ID (scenario ! a) = ''d1'') = (a = 3))) \<and>
   getByID 3 scenario (Some 0) ''d1'' = Inr (Some 3) \<and>
   (\<forall>a \<in> set (preorder scenario_tree). ID (scenario ! a) \<noteq> ''zz'') \<and>
   getByID 3 scenario (Some 0) ''zz'' = Inr None"
proof -
  have sh: "shape scenario scenario_tree"
    by (simp add: scenario_def scenario_tree_def menu_item_def)
  have ht: "height scenario_tree \<le> 3"
    by (simp add: scenario_tree_def)
  have pre: "preorder scenario_tree = [0, 1, 2, 3]" and rt: "root scenario_tree = 0"
    by (simp_all add: scenario_tree_def)
  have one: "3 \<in> set (preorder scenario_tree) \<and>
    (\<forall>a \<in> set (preorder scenario_tree). (ID (scenario ! a) = ''d1'') = (a = 3))"
    by (simp add: pre scenario_def menu_item_def)
  have none: "\<forall>a \<in> set (preorder scenario_tree). ID (scenario ! a) \<noteq> ''zz''"
    by (simp add: pre scenario_def menu_item_def)
  note g1 = getByID_preorder [OF sh ht, of "''d1''", THEN conjunct2, THEN conjunct1, THEN spec, THEN mp, OF one]
  note g2 = getByID_preorder [OF sh ht, of "''zz''", THEN conjunct2, THEN conjunct2, THEN mp, OF none]
  show ?thesis using sh ht pre one none g1 [unfolded rt] g2 [unfolded rt] by blast
qed

subsection \<open>removeByID\<close>

text \<open>
  The loop of \<^verbatim>\<open>removeByID\<close> over the children from index \<open>length front\<close> on: it
  removes the first match in pre-order of the subtrees not yet visited, given that
  each nested call does so for the descendants of its receiver. A child that is
  not of Submenu kind is not entered, so it must have no descendants.
\<close>

lemma removeByID_range_first:
  assumes call: "\<And>t. t \<in> set ts \<Longrightarrow>
      (find P (descendants t) = None \<longrightarrow> removeByID n h (Some (root t)) s = Inr (False, h)) \<and>
      (\<forall>b. find P (descendants t) = Some b \<longrightarrow>
         (\<exists>p i. p \<in> set (preorder t) \<and> i < length (SubMenu (h ! p)) \<and>
                SubMenu (h ! p) ! i = Some b \<and>
                removeByID n h (Some (root t)) s = Inr (True, remove_child_at h p i)))"
    and P: "P = (\<lambda>a. ID (h ! a) = s)"
    and sh: "\<forall>t \<in> set ts. shape h t"
    and leaf: "\<forall>t \<in> set ts. Type (h ! root t) \<noteq> SubmenuType \<longrightarrow> descendants t = []"
    and a: "a < length h"
    and cs: "SubMenu (h ! a) = front @ map (\<lambda>t. Some (root t)) ts"
  shows "(find P (concat (map preorder ts)) = None \<longrightarrow>
           removeByID_range n h (Some a) (length front) (map (\<lambda>t. Some (root t)) ts) s = Inr (False, h)) \<and>
         (\<forall>b. find P (concat (map preorder ts)) = Some b \<longrightarrow>
           (\<exists>p i. p \<in> set (a # concat (map preorder ts)) \<and> i < length (SubMenu (h ! p)) \<and>
                  SubMenu (h ! p) ! i = Some b \<and>
                  removeByID_range n h (Some a) (length front) (map (\<lambda>t. Some (root t)) ts) s =
                    Inr (True, remove_child_at h p i)))"
  using call sh leaf cs
proof (induction ts arbitrary: front)
  case Nil
  then show ?case by simp
next
  case (Cons t ts)
  obtain c us where t: "t = Node c us" by (cases t)
  from Cons.prems(2) t have c: "c < length h" by simp
  have pre_t: "preorder t = c # descendants t" by (simp add: t)
  have here: "length front < length (SubMenu (h ! a))" "SubMenu (h ! a) ! length front = Some c"
    using Cons.prems(4) t by (simp_all add: nth_append)
  show ?case
  proof (cases "P c")
    case True
    then have "find P (concat (map preorder (t # ts))) = Some c" by (simp add: t)
    moreover have "removeByID_range n h (Some a) (length front)
        (map (\<lambda>t. Some (root t)) (t # ts)) s = Inr (True, remove_child_at h a (length front))"
      using True c a by (simp add: t P remove_child_at_def)
    ultimately show ?thesis using here by auto
  next
    case False
    have IH: "(find P (concat (map preorder ts)) = None \<longrightarrow>
           removeByID_range n h (Some a) (length (front @ [Some c])) (map (\<lambda>t. Some (root t)) ts) s = Inr (False, h)) \<and>
         (\<forall>b. find P (concat (map preorder ts)) = Some b \<longrightarrow>
           (\<exists>p i. p \<in> set (a # concat (map preorder ts)) \<and> i < length (SubMenu (h ! p)) \<and>
                  SubMenu (h ! p) ! i = Some b \<and>
                  removeByID_range n h (Some a) (length (front @ [Some c])) (map (\<lambda>t. Some (root t)) ts) s =
                    Inr (True, remove_child_at h p i)))"
      using Cons.prems by (intro Cons.IH) (auto simp: t)
    note sub = Cons.prems(1) [of t, simplified]
    show ?thesis
    proof (cases "find P (descendants t)")
      case (Some b)
      with sub obtain p i where pi: "p \<in> set (preorder t)" "i < length (SubMenu (h ! p))"
        "SubMenu (h ! p) ! i = Some b" "removeByID n h (Some (root t)) s = Inr (True, remove_child_at h p i)"
        by blast
      have lf: "Type (h ! root t) \<noteq> SubmenuType \<longrightarrow> descendants t = []"
        using Cons.prems(3) by simp
      have sm: "Type (h ! c) = SubmenuType"
      proof (rule ccontr)
        assume "Type (h ! c) \<noteq> SubmenuType"
        then have "Type (h ! root t) \<noteq> SubmenuType" by (simp add: t)
        with lf have "descendants t = []" by blast
        with Some show False by simp
      qed
      have "find P (concat (map preorder (t # ts))) = Some b"
        using False Some by (simp add: pre_t find_append_list)
      moreover have "removeByID_range n h (Some a) (length front)
          (map (\<lambda>t. Some (root t)) (t # ts)) s = Inr (True, remove_child_at h p i)"
        using False c sm pi(4) by (simp add: t P)
      ultimately show ?thesis using pi by auto
    next
      case None
      have f: "find P (concat (map preorder (t # ts))) = find P (concat (map preorder ts))"
        using False None by (simp add: pre_t find_append_list)
      have "removeByID n h (Some c) s = Inr (False, h)" using sub None by (simp add: t)
      then have r: "removeByID_range n h (Some a) (length front)
          (map (\<lambda>t. Some (root t)) (t # ts)) s =
          removeByID_range n h (Some a) (length (front @ [Some c])) (map (\<lambda>t. Some (root t)) ts) s"
        using False c by (simp add: t P)
      show ?thesis unfolding f r
      proof (intro conjI allI impI)
        assume "find P (concat (map preorder ts)) = None"
        with IH show "removeByID_range n h (Some a) (length (front @ [Some c]))
            (map (\<lambda>t. Some (root t)) ts) s = Inr (False, h)"
          by blast
      next
        fix b
        assume "find P (concat (map preorder ts)) = Some b"
        with IH obtain p i where pi: "p \<in> set (a # concat (map preorder ts))"
          "i < length (SubMenu (h ! p))" "SubMenu (h ! p) ! i = Some b"
          "removeByID_range n h (Some a) (length (front @ [Some c]))
             (map (\<lambda>t. Some (root t)) ts) s = Inr (True, remove_child_at h p i)"
          by blast
        from pi(1) have "p \<in> set (a # concat (map preorder (t # ts)))" by auto
        with pi(2-4)
        show "\<exists>p i. p \<in> set (a # concat (map preorder (t # ts))) \<and>
                i < length (SubMenu (h ! p)) \<and> SubMenu (h ! p) ! i = Some b \<and>
                removeByID_range n h (Some a) (length (front @ [Some c]))
                  (map (\<lambda>t. Some (root t)) ts) s = Inr (True, remove_child_at h p i)"
          by blast
      qed
    qed
  qed
qed


lemma shape_preorder_allocated: "shape h t \<Longrightarrow> a \<in> set (preorder t) \<Longrightarrow> a < length h"
proof (induction t)
  case (Node c ts)
  then show ?case by auto
qed

lemma shape_leaf: "shape h t \<Longrightarrow> SubMenu (h ! root t) = [] \<Longrightarrow> descendants t = []"
  by (cases t) auto

lemma removeByID_first:
  assumes "shape h t" and "height t \<le> n"
    and "\<forall>a \<in> set (preorder t). Type (h ! a) \<noteq> SubmenuType \<longrightarrow> SubMenu (h ! a) = []"
    and P: "P = (\<lambda>a. ID (h ! a) = s)"
  shows "(find P (descendants t) = None \<longrightarrow> removeByID n h (Some (root t)) s = Inr (False, h)) \<and>
         (\<forall>b. find P (descendants t) = Some b \<longrightarrow>
            (\<exists>p i. p \<in> set (preorder t) \<and> i < length (SubMenu (h ! p)) \<and>
                   SubMenu (h ! p) ! i = Some b \<and>
                   removeByID n h (Some (root t)) s = Inr (True, remove_child_at h p i)))"
  using assms(1-3)
proof (induction n arbitrary: t)
  case 0
  then show ?case by (cases t) simp
next
  case (Suc n)
  obtain a ts where t: "t = Node a ts" by (cases t)
  from Suc.prems t have a: "a < length h" and cs: "SubMenu (h ! a) = [] @ map (\<lambda>t. Some (root t)) ts"
    and sh: "\<forall>u \<in> set ts. shape h u"
    by auto
  have sub: "(find P (descendants u) = None \<longrightarrow> removeByID n h (Some (root u)) s = Inr (False, h)) \<and>
      (\<forall>b. find P (descendants u) = Some b \<longrightarrow>
         (\<exists>p i. p \<in> set (preorder u) \<and> i < length (SubMenu (h ! p)) \<and>
                SubMenu (h ! p) ! i = Some b \<and>
                removeByID n h (Some (root u)) s = Inr (True, remove_child_at h p i)))"
    if "u \<in> set ts" for u
    using that Suc.prems t subtree_height [of u ts a n] by (intro Suc.IH) auto
  have leaf: "\<forall>u \<in> set ts. Type (h ! root u) \<noteq> SubmenuType \<longrightarrow> descendants u = []"
  proof (intro ballI impI)
    fix u assume u: "u \<in> set ts" and k: "Type (h ! root u) \<noteq> SubmenuType"
    have "root u \<in> set (preorder u)" by (cases u) simp
    with u have "root u \<in> set (preorder t)" by (auto simp: t)
    with Suc.prems(3) k have "SubMenu (h ! root u) = []" by blast
    with sh u show "descendants u = []" by (intro shape_leaf) auto
  qed
  have r: "removeByID (Suc n) h (Some (root t)) s =
      removeByID_range n h (Some a) (length ([]::ptr list)) (map (\<lambda>t. Some (root t)) ts) s"
    using a cs by (simp add: t)
  have d: "descendants t = concat (map preorder ts)"
    and p: "preorder t = a # concat (map preorder ts)"
    by (simp_all add: t)
  show ?case
    unfolding r d p
    by (rule removeByID_range_first [OF sub P sh leaf a cs])
qed

text \<open>
  Claim C2. On a tree of a store that satisfies I3, \<^verbatim>\<open>m.removeByID(s)\<close> looks at the
  descendants of \<open>m\<close> only, in pre-order. If none has id \<open>s\<close> it returns false and
  the store is the one before (also when \<open>m\<close> itself has id \<open>s\<close>). Otherwise the first
  descendant \<open>b\<close> with id \<open>s\<close> is taken out of the children of a node \<open>p\<close> of the tree
  that holds it at an index \<open>i\<close>: the children of \<open>p\<close> before and after \<open>i\<close> keep
  their order, nothing else changes, and the call returns true. The call returns
  once the allowed nesting reaches the height of the tree.
\<close>

theorem removeByID_spec:
  assumes "shape h t" and "height t \<le> n" and "I3 h"
  shows "(find (\<lambda>a. ID (h ! a) = s) (descendants t) = None \<longrightarrow>
            removeByID n h (Some (root t)) s = Inr (False, h)) \<and>
         (\<forall>b. find (\<lambda>a. ID (h ! a) = s) (descendants t) = Some b \<longrightarrow>
            (\<exists>p i. p \<in> set (preorder t) \<and> i < length (SubMenu (h ! p)) \<and>
                   SubMenu (h ! p) ! i = Some b \<and>
                   removeByID n h (Some (root t)) s =
                     Inr (True, h[p := (h ! p)\<lparr>SubMenu :=
                            take i (SubMenu (h ! p)) @ drop (Suc i) (SubMenu (h ! p))\<rparr>])))"
proof -
  have "\<forall>a \<in> set (preorder t). Type (h ! a) \<noteq> SubmenuType \<longrightarrow> SubMenu (h ! a) = []"
    using assms(1,3) shape_preorder_allocated [of h t] by (auto simp: I3_def)
  from removeByID_first [OF assms(1,2) this refl, of s]
  show ?thesis by (simp only: remove_child_at_def)
qed

theorem removeByID_spec_witness:
  "shape scenario scenario_tree \<and> height scenario_tree \<le> 3 \<and> I3 scenario \<and>
   find (\<lambda>a. ID (scenario ! a) = ''d1'') (descendants scenario_tree) = Some 3 \<and>
   (\<exists>p i. p \<in> set (preorder scenario_tree) \<and> i < length (SubMenu (scenario ! p)) \<and>
          SubMenu (scenario ! p) ! i = Some 3 \<and>
          removeByID 3 scenario (Some 0) ''d1'' =
            Inr (True, scenario[p := (scenario ! p)\<lparr>SubMenu :=
                   take i (SubMenu (scenario ! p)) @ drop (Suc i) (SubMenu (scenario ! p))\<rparr>])) \<and>
   find (\<lambda>a. ID (scenario ! a) = ''a'') (descendants scenario_tree) = None \<and>
   removeByID 3 scenario (Some 0) ''a'' = Inr (False, scenario)"
proof -
  have sh: "shape scenario scenario_tree"
    by (simp add: scenario_def scenario_tree_def menu_item_def)
  have ht: "height scenario_tree \<le> 3"
    by (simp add: scenario_tree_def)
  have i3: "I3 scenario"
    by (simp add: I3_def scenario_def menu_item_def upt_rec)
  have rt: "root scenario_tree = 0" and d: "descendants scenario_tree = [1, 2, 3]"
    by (simp_all add: scenario_tree_def)
  have f1: "find (\<lambda>a. ID (scenario ! a) = ''d1'') (descendants scenario_tree) = Some 3"
    by (simp add: d scenario_def menu_item_def)
  have f2: "find (\<lambda>a. ID (scenario ! a) = ''a'') (descendants scenario_tree) = None"
    by (simp add: d scenario_def menu_item_def)
  note r1 = removeByID_spec [OF sh ht i3, of "''d1''", THEN conjunct2, THEN spec, THEN mp, OF f1]
  note r2 = removeByID_spec [OF sh ht i3, of "''a''", THEN conjunct1, THEN mp, OF f2]
  show ?thesis using sh ht i3 f1 f2 r1 [unfolded rt] r2 [unfolded rt] by blast
qed

end
